theory Spec2Isabelle
  imports Complex_Main
begin

section \<open>Data model of \<^verbatim>\<open>src/app.js\<close>\<close>

text \<open>
  The module is one class, \<^verbatim>\<open>App\<close>, whose methods run as callbacks of the browser's
  event loop, one at a time and to completion. The embedding is a record of the fields
  of the \<^verbatim>\<open>App\<close> object together with the host state the callbacks depend on (the
  console, the timer armed by \<^verbatim>\<open>setTimeout\<close>, the loader requests in flight, the
  clock), one function per method or closure, and a function \<open>step\<close> that runs the
  callback an event triggers.

  JavaScript numbers are IEEE doubles; positions and time steps are idealised as reals.
  Fields that no callback modelled here reads (camera, renderer internals, stats,
  clock object, raycaster, board data) are left out.
\<close>

datatype vector3 = Vector3 (vx: real) (vy: real) (vz: real)

datatype quaternion = Quaternion real real real real

record object3d =
  position :: vector3
  quaternion :: quaternion

text \<open>\<^verbatim>\<open>new THREE.Object3D()\<close>: at the origin, with the identity rotation.\<close>

definition Object3D :: object3d where
  "Object3D = \<lparr>position = Vector3 0 0 0, quaternion = Quaternion 0 0 0 1\<rparr>"

text \<open>The three closures of \<^verbatim>\<open>setupXR\<close> that are registered as listeners (lines 126-136).\<close>

datatype handler = onSelectStart | onSelectEnd | onConnected

text \<open>
  A controller object as returned by \<^verbatim>\<open>renderer.xr.getController(i)\<close>: the index it was
  asked for, \<^verbatim>\<open>userData.selectPressed\<close>, and the listeners added with
  \<^verbatim>\<open>addEventListener\<close>, in registration order.
\<close>

record controller =
  xrIndex :: nat
  selectPressed :: bool
  listeners :: "(string \<times> handler) list"

text \<open>The objects added to the scene, and the objects a \<^verbatim>\<open>GazeController\<close> is built from.\<close>

datatype node = DollyNode | AmbientLight | Model nat | UIMesh

datatype ref = SceneRef | DummyCamRef

text \<open>
  \<^verbatim>\<open>new GazeController(scene, camera)\<close> (line 140): the two references it is given. The
  class itself is a bundled helper outside \<^verbatim>\<open>src/\<close>; \<open>gazeMove\<close> is the opaque selection
  signal the spec attributes to it.
\<close>

record gaze =
  gazeScene :: ref
  gazeCamera :: ref
  gazeMove :: bool

text \<open>
  The timer behind \<^verbatim>\<open>timeoutId\<close>: never armed, pending with its deadline (in ms on the
  session clock), cleared by \<^verbatim>\<open>clearTimeout\<close>, or fired. Only the success callback of
  the third model request calls \<^verbatim>\<open>setupXR\<close>, so a session arms at most one timer.
\<close>

datatype timer = NotArmed | Pending nat | Cleared | Fired

datatype request = NoRequest | InFlight | Finished

datatype error = TypeError

text \<open>
  An entry of the console: a message written with \<^verbatim>\<open>console.error\<close>, or the error of
  the model request of a number as the loader reports it when it was given no error
  callback.
\<close>

datatype logEntry = Message string | LoaderError nat

record app =
  dolly :: "object3d option"
  dummyCam :: object3d
  proxy :: "object3d option"
  scene :: "node list"
  environment :: bool
  loadingBarVisible :: "bool option"
  xrEnabled :: bool
  useGaze :: "bool option"
  gazeController :: "gaze option"
  controllers :: "controller list option"
  animationLoop :: bool
  console :: "logEntry list"
  now :: nat
  timeout :: timer
  envRequest :: request
  modelRequest :: "nat option"
  gazeCreated :: "gaze list"
  inputSources :: nat

text \<open>
  \<open>None\<close> stands for a property that is \<^verbatim>\<open>undefined\<close>. \<open>useGaze\<close> is never initialised
  by the constructor, so it starts \<^verbatim>\<open>undefined\<close>, which JavaScript reads as false.
  \<open>gazeCreated\<close> logs every \<^verbatim>\<open>new GazeController\<close> call; \<open>inputSources\<close> is the number of
  physical input devices the host has, which no line of the module reads. \<open>console\<close>
  holds the errors written to the console, oldest first.
\<close>

definition truthy :: "bool option \<Rightarrow> bool" where
  "truthy v = (v = Some True)"

section \<open>Constructor and loaders\<close>

text \<open>\<^verbatim>\<open>setEnvironment\<close> (lines 67-81) starts the HDR request with both callbacks.\<close>

definition setEnvironment :: "app \<Rightarrow> app" where
  "setEnvironment s = s\<lparr>envRequest := InFlight\<rparr>"

definition onEnvironmentLoad :: "app \<Rightarrow> app" where
  "onEnvironmentLoad s = s\<lparr>environment := True\<rparr>"

definition onEnvironmentError :: "app \<Rightarrow> app" where
  "onEnvironmentError s =
     s\<lparr>console := console s @ [Message ''An error occurred setting the environment'']\<rparr>"

text \<open>
  \<^verbatim>\<open>loadModels\<close> (lines 89-117) requests \<^verbatim>\<open>model1.glb\<close> with a success callback only;
  each success callback requests the next model, and the third one calls \<^verbatim>\<open>setupXR\<close>.
  \<open>modelRequest\<close> is the number of the model whose request is in flight.
\<close>

definition loadModels :: "app \<Rightarrow> app" where
  "loadModels s = s\<lparr>modelRequest := Some 1\<rparr>"

text \<open>
  Modelled from the spec: the loader library is outside \<^verbatim>\<open>src/\<close>. The calls at lines
  98, 102 and 107 pass it no error callback, and section 7 of the spec has every load
  failure logged and otherwise ignored: the loader writes the error of a failed model
  request to the console, and no code of the module runs.
\<close>

definition loaderDefaultError :: "nat \<Rightarrow> app \<Rightarrow> app" where
  "loaderDefaultError k s = s\<lparr>console := console s @ [LoaderError k]\<rparr>"

definition App_constructor :: "nat \<Rightarrow> app" where
  "App_constructor devices =
     loadModels (setEnvironment
       \<lparr>dolly = Some (Object3D\<lparr>position := Vector3 0 0 10\<rparr>),
        dummyCam = Object3D,
        proxy = None,
        scene = [DollyNode, AmbientLight],
        environment = False,
        loadingBarVisible = None,
        xrEnabled = False,
        useGaze = None,
        gazeController = None,
        controllers = None,
        animationLoop = False,
        console = [],
        now = 0,
        timeout = NotArmed,
        envRequest = NoRequest,
        modelRequest = None,
        gazeCreated = [],
        inputSources = devices\<rparr>)"

section \<open>XR setup\<close>

text \<open>The loop of \<^verbatim>\<open>buildControllers\<close> (lines 178-188), \<^verbatim>\<open>for (let i = 0; i <= 1; i++)\<close>.\<close>

function buildControllers_loop :: "nat \<Rightarrow> controller list \<Rightarrow> controller list" where
  "buildControllers_loop i cs =
     (if i \<le> 1
      then buildControllers_loop (i + 1)
             (cs @ [\<lparr>xrIndex = i, selectPressed = False, listeners = []\<rparr>])
      else cs)"
  by pat_completeness auto
termination
  by (relation "measure (\<lambda>(i, cs). 2 - i)") auto

definition buildControllers :: "app \<Rightarrow> controller list" where
  "buildControllers s = buildControllers_loop 0 []"

text \<open>
  The body of the \<^verbatim>\<open>forEach\<close> at lines 145-149: three \<^verbatim>\<open>addEventListener\<close> calls on
  each controller.
\<close>

definition registered :: "(string \<times> handler) list" where
  "registered =
     [(''selectstart'', onSelectStart), (''selectend'', onSelectEnd),
      (''connected'', onConnected)]"

definition addListeners :: "controller \<Rightarrow> controller" where
  "addListeners c = c\<lparr>listeners := listeners c @ registered\<rparr>"

definition connectionDelay :: nat where
  "connectionDelay = 2000"

definition setTimeout :: "nat \<Rightarrow> app \<Rightarrow> app" where
  "setTimeout delay s = s\<lparr>timeout := Pending (now s + delay)\<rparr>"

fun clearTimeout :: "timer \<Rightarrow> timer" where
  "clearTimeout (Pending deadline) = Cleared"
| "clearTimeout t = t"

definition GazeController :: "ref \<Rightarrow> ref \<Rightarrow> gaze" where
  "GazeController sc cam = \<lparr>gazeScene = sc, gazeCamera = cam, gazeMove = False\<rparr>"

text \<open>\<^verbatim>\<open>connectionTimeout\<close> (lines 138-141), the callback of the timer.\<close>

definition connectionTimeout :: "app \<Rightarrow> app" where
  "connectionTimeout s =
     s\<lparr>useGaze := Some True,
       gazeController := Some (GazeController SceneRef DummyCamRef),
       gazeCreated := gazeCreated s @ [GazeController SceneRef DummyCamRef]\<rparr>"

definition setupXR :: "app \<Rightarrow> app" where
  "setupXR s =
     (let s1 = s\<lparr>xrEnabled := True\<rparr>;
          s2 = setTimeout connectionDelay s1;
          s3 = s2\<lparr>controllers := Some (buildControllers s2)\<rparr>;
          s4 = s3\<lparr>controllers := map_option (map addListeners) (controllers s3)\<rparr>;
          s5 = s4\<lparr>scene := scene s4 @ [UIMesh]\<rparr>
      in s5\<lparr>animationLoop := True\<rparr>)"

text \<open>
  The success callbacks of the three model requests (lines 98-114). The request that
  called back is over; the first two start the next one.
\<close>

definition onModelLoad :: "nat \<Rightarrow> app \<Rightarrow> app" where
  "onModelLoad k s =
     (if k = 1 then s\<lparr>scene := scene s @ [Model 1], modelRequest := Some 2\<rparr>
      else if k = 2 then s\<lparr>scene := scene s @ [Model 2], modelRequest := Some 3\<rparr>
      else if k = 3 then
        setupXR (s\<lparr>scene := scene s @ [Model 3], modelRequest := None,
                   loadingBarVisible := Some False\<rparr>)
      else s)"

section \<open>Controller events\<close>

definition setSelectPressed :: "nat \<Rightarrow> bool \<Rightarrow> app \<Rightarrow> app" where
  "setSelectPressed i b s =
     (case controllers s of
        None \<Rightarrow> s
      | Some cs \<Rightarrow>
          if i < length cs
          then s\<lparr>controllers := Some (cs[i := (cs ! i)\<lparr>selectPressed := b\<rparr>])\<rparr>
          else s)"

text \<open>A listener runs with \<^verbatim>\<open>this\<close> bound to the controller the event was dispatched on.\<close>

fun runHandler :: "handler \<Rightarrow> nat \<Rightarrow> app \<Rightarrow> app" where
  "runHandler onSelectStart i s = setSelectPressed i True s"
| "runHandler onSelectEnd i s = setSelectPressed i False s"
| "runHandler onConnected i s = s\<lparr>timeout := clearTimeout (timeout s)\<rparr>"

definition handlersFor :: "string \<Rightarrow> controller \<Rightarrow> handler list" where
  "handlersFor name c = map snd (filter (\<lambda>l. fst l = name) (listeners c))"

definition dispatchEvent :: "string \<Rightarrow> nat \<Rightarrow> app \<Rightarrow> app" where
  "dispatchEvent name i s =
     (case controllers s of
        None \<Rightarrow> s
      | Some cs \<Rightarrow>
          if i < length cs
          then fold (\<lambda>h. runHandler h i) (handlersFor name (cs ! i)) s
          else s)"

section \<open>The per-frame update\<close>

definition wallLimit :: real where
  "wallLimit = 1.3"

definition speed :: real where
  "speed = 2"

definition withinWalls :: "vector3 \<Rightarrow> bool" where
  "withinWalls p = (\<bar>vx p\<bar> \<le> wallLimit \<and> \<bar>vz p\<bar> \<le> wallLimit)"

text \<open>
  Modelled from the spec: \<^verbatim>\<open>src/app.js\<close> ends in the middle of line 203, inside
  \<^verbatim>\<open>moveDolly\<close>; what follows the guard and the two constants is missing. The
  definitions \<open>anySelectPressed\<close>, \<open>gazeSelected\<close>, \<open>advance\<close>, \<open>clampAxis\<close>,
  \<open>clampToWalls\<close>, \<open>target\<close> and \<open>moveDolly_rest\<close> follow the per-frame update contract of
  section 4.1 of the spec: read the orientation of the head-tracking frame, compute a
  forward direction from it, advance the rig along it by \<open>speed * dt\<close> if a handle
  reports \<open>selectPressed\<close> (or the fallback provider signals a selection), and clamp
  \<open>x\<close> and \<open>z\<close> to the boundary limit. How the direction is computed from the
  orientation is the engine's business: it is the parameter \<open>forward\<close>.
\<close>

definition anySelectPressed :: "app \<Rightarrow> bool" where
  "anySelectPressed s =
     (case controllers s of None \<Rightarrow> False | Some cs \<Rightarrow> list_ex selectPressed cs)"

text \<open>Modelled from the spec: the selection signal of the fallback provider.\<close>

definition gazeSelected :: "app \<Rightarrow> bool" where
  "gazeSelected s =
     (truthy (useGaze s) \<and>
      (case gazeController s of None \<Rightarrow> False | Some g \<Rightarrow> gazeMove g))"

text \<open>Modelled from the spec: a displacement of \<open>k\<close> along \<open>dir\<close>.\<close>

definition advance :: "real \<Rightarrow> vector3 \<Rightarrow> vector3 \<Rightarrow> vector3" where
  "advance k dir p = Vector3 (vx p + k * vx dir) (vy p + k * vy dir) (vz p + k * vz dir)"

text \<open>Modelled from the spec: the symmetric limit on one horizontal axis.\<close>

definition clampAxis :: "real \<Rightarrow> real" where
  "clampAxis v = max (- wallLimit) (min wallLimit v)"

text \<open>Modelled from the spec: the limit on the horizontal plane.\<close>

definition clampToWalls :: "vector3 \<Rightarrow> vector3" where
  "clampToWalls p = Vector3 (clampAxis (vx p)) (vy p) (clampAxis (vz p))"

text \<open>
  Modelled from the spec: where the update would put the rig before the clamp, forward
  by \<open>speed * dt\<close> while a selection is held, where it is otherwise.
\<close>

definition target ::
  "(quaternion \<Rightarrow> vector3) \<Rightarrow> real \<Rightarrow> object3d \<Rightarrow> app \<Rightarrow> vector3" where
  "target forward dt d s =
     (if anySelectPressed s \<or> gazeSelected s
      then advance (speed * dt) (forward (quaternion (dummyCam s))) (position d)
      else position d)"

text \<open>Modelled from the spec: the part of \<^verbatim>\<open>moveDolly\<close> after the guard.\<close>

definition moveDolly_rest ::
  "(quaternion \<Rightarrow> vector3) \<Rightarrow> real \<Rightarrow> object3d \<Rightarrow> app \<Rightarrow> app" where
  "moveDolly_rest forward dt d s =
     s\<lparr>dolly := Some (d\<lparr>position := clampToWalls (target forward dt d s)\<rparr>)\<rparr>"

text \<open>
  \<^verbatim>\<open>moveDolly\<close> (from line 193). Line 194 returns when \<^verbatim>\<open>this.proxy\<close> is undefined.
  Line 198 reads \<^verbatim>\<open>this.dolly.position\<close>, which throws a \<^verbatim>\<open>TypeError\<close> when
  \<^verbatim>\<open>this.dolly\<close> is undefined; nothing has been written by then. Lines 198-202 build
  local values only (a clone of the position raised by 1, a fresh vector, a clone of
  the dolly's quaternion). Line 203 starts a write to the dolly's quaternion and is cut
  off with the file; what becomes of the orientation is not known, and no theorem below
  says anything about the orientation after an update that passes the guard.
\<close>

definition moveDolly :: "(quaternion \<Rightarrow> vector3) \<Rightarrow> real \<Rightarrow> app \<Rightarrow> error + app" where
  "moveDolly forward dt s =
     (if proxy s = None then Inr s
      else case dolly s of
             None \<Rightarrow> Inl TypeError
           | Some d \<Rightarrow> Inr (moveDolly_rest forward dt d s))"

text \<open>
  Modelled from the spec: \<^verbatim>\<open>render\<close>, the callback registered at line 165, is missing
  from \<^verbatim>\<open>src/\<close>. The spec has the per-frame update invoked once per rendered frame
  with the elapsed time \<open>dt\<close>. An exception ends the callback and leaves the state as
  it was when it was thrown.
\<close>

definition render :: "(quaternion \<Rightarrow> vector3) \<Rightarrow> real \<Rightarrow> app \<Rightarrow> app" where
  "render forward dt s = (case moveDolly forward dt s of Inl e \<Rightarrow> s | Inr s' \<Rightarrow> s')"

section \<open>The event loop\<close>

text \<open>
  What the host can deliver: the outcome of the HDR request, the outcome of the model
  request in flight, the passing of \<open>d\<close> ms, a controller event by name on the
  controller of an index, a new head pose, a change of the fallback provider's signal,
  a frame. A window resize and the arrival of the board data touch only fields that are
  not modelled. A model that loads is taken to have a first child to add to the scene;
  where the models are placed is not modelled.
\<close>

datatype event =
    EnvLoaded
  | EnvFailed
  | ModelLoaded
  | ModelFailed
  | Elapse nat
  | XR string nat
  | HeadPose quaternion
  | GazeSignal bool
  | Frame real

text \<open>Time passes; a pending timer whose deadline is reached runs its callback, once.\<close>

definition elapse :: "nat \<Rightarrow> app \<Rightarrow> app" where
  "elapse d s =
     (let s' = s\<lparr>now := now s + d\<rparr>
      in case timeout s' of
           Pending deadline \<Rightarrow>
             if deadline \<le> now s' then connectionTimeout (s'\<lparr>timeout := Fired\<rparr>) else s'
         | _ \<Rightarrow> s')"

text \<open>
  A request calls back at most once. The model requests were given no error callback,
  so a failed one runs no code of the application; the loader reports it.
\<close>

fun step :: "(quaternion \<Rightarrow> vector3) \<Rightarrow> event \<Rightarrow> app \<Rightarrow> app" where
  "step forward EnvLoaded s =
     (if envRequest s = InFlight then onEnvironmentLoad (s\<lparr>envRequest := Finished\<rparr>) else s)"
| "step forward EnvFailed s =
     (if envRequest s = InFlight then onEnvironmentError (s\<lparr>envRequest := Finished\<rparr>) else s)"
| "step forward ModelLoaded s =
     (case modelRequest s of None \<Rightarrow> s | Some k \<Rightarrow> onModelLoad k s)"
| "step forward ModelFailed s =
     (case modelRequest s of
        None \<Rightarrow> s
      | Some k \<Rightarrow> loaderDefaultError k (s\<lparr>modelRequest := None\<rparr>))"
| "step forward (Elapse d) s = elapse d s"
| "step forward (XR name i) s = dispatchEvent name i s"
| "step forward (HeadPose q) s = s\<lparr>dummyCam := (dummyCam s)\<lparr>quaternion := q\<rparr>\<rparr>"
| "step forward (GazeSignal b) s =
     (case gazeController s of
        None \<Rightarrow> s
      | Some g \<Rightarrow> s\<lparr>gazeController := Some (g\<lparr>gazeMove := b\<rparr>)\<rparr>)"
| "step forward (Frame dt) s = (if animationLoop s then render forward dt s else s)"

fun run :: "(quaternion \<Rightarrow> vector3) \<Rightarrow> event list \<Rightarrow> app \<Rightarrow> app" where
  "run forward [] s = s"
| "run forward (e # es) s = run forward es (step forward e s)"

text \<open>
  Two engines for concrete sessions: whatever the orientation of the head, the forward
  direction is \<open>+x\<close>, or \<open>-z\<close>.
\<close>

definition lookAlongX :: "quaternion \<Rightarrow> vector3" where
  "lookAlongX q = Vector3 1 0 0"

definition lookAlongNegZ :: "quaternion \<Rightarrow> vector3" where
  "lookAlongNegZ q = Vector3 0 0 (- 1)"

text \<open>The dolly's position, where there is a dolly.\<close>

definition dollyPosition :: "app \<Rightarrow> vector3 option" where
  "dollyPosition s = map_option position (dolly s)"

section \<open>Sessions\<close>

text \<open>The time that passes during a sequence of events, in ms.\<close>

fun elapsed :: "event list \<Rightarrow> nat" where
  "elapsed [] = 0"
| "elapsed (Elapse d # es) = d + elapsed es"
| "elapsed (e # es) = elapsed es"

text \<open>A \<^verbatim>\<open>connected\<close> event on one of the two controllers the application asked for.\<close>

fun connectedOnHandle :: "event \<Rightarrow> bool" where
  "connectedOnHandle (XR name i) = (name = ''connected'' \<and> i \<le> 1)"
| "connectedOnHandle e = False"

text \<open>
  How often \<^verbatim>\<open>useGaze\<close> goes from false (or \<^verbatim>\<open>undefined\<close>) to true during a sequence
  of events.
\<close>

fun risingEdges :: "(quaternion \<Rightarrow> vector3) \<Rightarrow> event list \<Rightarrow> app \<Rightarrow> nat" where
  "risingEdges forward [] s = 0"
| "risingEdges forward (e # es) s =
     (if \<not> truthy (useGaze s) \<and> truthy (useGaze (step forward e s)) then 1 else 0) +
     risingEdges forward es (step forward e s)"

text \<open>The state has its two controllers, each with exactly the registered listeners.\<close>

definition wired :: "app \<Rightarrow> bool" where
  "wired s =
     (case controllers s of
        None \<Rightarrow> False
      | Some cs \<Rightarrow> length cs = 2 \<and> list_all (\<lambda>c. listeners c = registered) cs)"

text \<open>
  The three phases of the connection timeout after setup, with \<open>G\<close> the
  \<^verbatim>\<open>GazeController\<close> instances created before: the timer is pending and its deadline
  lies ahead; the timer was cleared; the timer has fired.
\<close>

fun isPending :: "timer \<Rightarrow> bool" where
  "isPending (Pending deadline) = True"
| "isPending t = False"

definition awaiting :: "nat \<Rightarrow> gaze list \<Rightarrow> app \<Rightarrow> bool" where
  "awaiting deadline G s =
     (modelRequest s = None \<and> wired s \<and> timeout s = Pending deadline \<and> now s < deadline \<and>
      \<not> truthy (useGaze s) \<and> gazeCreated s = G)"

definition cancelled :: "gaze list \<Rightarrow> app \<Rightarrow> bool" where
  "cancelled G s =
     (modelRequest s = None \<and> timeout s = Cleared \<and>
      \<not> truthy (useGaze s) \<and> gazeCreated s = G)"

definition fallback :: "gaze list \<Rightarrow> app \<Rightarrow> bool" where
  "fallback G s =
     (modelRequest s = None \<and> timeout s = Fired \<and> useGaze s = Some True \<and>
      gazeCreated s = G @ [GazeController SceneRef DummyCamRef] \<and>
      map_option gazeCamera (gazeController s) = Some DummyCamRef)"

text \<open>A state with everything the HDR request can change blanked out.\<close>

definition exceptEnvironment :: "app \<Rightarrow> app" where
  "exceptEnvironment s = s\<lparr>environment := False, console := [], envRequest := NoRequest\<rparr>"

section \<open>The guard of the per-frame update\<close>

lemma moveDolly_guard: "proxy s = None \<Longrightarrow> moveDolly forward dt s = Inr s"
  by (simp add: moveDolly_def)

lemma constructor_proxy: "proxy (App_constructor devices) = None"
  by (simp add: App_constructor_def loadModels_def setEnvironment_def)

lemma constructor_dolly:
  "dolly (App_constructor devices) = Some (Object3D\<lparr>position := Vector3 0 0 10\<rparr>)"
  by (simp add: App_constructor_def loadModels_def setEnvironment_def)

text \<open>
  C7: the per-frame update is a no-op when the reference its guard tests is unset. The
  guard is line 194 and the reference is \<^verbatim>\<open>this.proxy\<close>: while it is undefined,
  \<^verbatim>\<open>moveDolly\<close> returns the state it was given, and so a frame changes nothing. (The
  dolly itself is set by the constructor at line 22 and never unset.)
\<close>

theorem moveDolly_noop_without_proxy:
  "proxy s = None \<Longrightarrow>
     moveDolly forward dt s = Inr s \<and> render forward dt s = s \<and>
     step forward (Frame dt) s = s"
  by (simp add: moveDolly_def render_def)

theorem moveDolly_noop_without_proxy_witness:
  "proxy (App_constructor 0) = None \<and>
   moveDolly lookAlongNegZ 0.1 (App_constructor 0) = Inr (App_constructor 0) \<and>
   step lookAlongNegZ (Frame 0.1) (App_constructor 0) = App_constructor 0"
  using moveDolly_noop_without_proxy [of "App_constructor 0" lookAlongNegZ "0.1"]
  by (simp add: constructor_proxy)

section \<open>No callback defines the proxy\<close>

lemma runHandler_proxy: "proxy (runHandler h i s) = proxy s"
  by (cases h) (simp_all add: setSelectPressed_def split: option.splits)

lemma runHandler_dolly: "dolly (runHandler h i s) = dolly s"
  by (cases h) (simp_all add: setSelectPressed_def split: option.splits)

lemma fold_runHandler_proxy: "proxy (fold (\<lambda>h. runHandler h i) hs s) = proxy s"
  by (induction hs arbitrary: s) (simp_all add: runHandler_proxy)

lemma fold_runHandler_dolly: "dolly (fold (\<lambda>h. runHandler h i) hs s) = dolly s"
  by (induction hs arbitrary: s) (simp_all add: runHandler_dolly)

lemma setupXR_proxy: "proxy (setupXR s) = proxy s"
  by (simp add: setupXR_def setTimeout_def Let_def)

lemma setupXR_dolly: "dolly (setupXR s) = dolly s"
  by (simp add: setupXR_def setTimeout_def Let_def)

lemma step_keeps_proxy_undefined:
  "proxy s = None \<Longrightarrow> proxy (step forward e s) = None"
  by (cases e)
     (auto simp add: onEnvironmentLoad_def onEnvironmentError_def
        loaderDefaultError_def onModelLoad_def
        setupXR_proxy elapse_def connectionTimeout_def dispatchEvent_def
        fold_runHandler_proxy render_def moveDolly_def Let_def
        split: option.splits timer.splits)

lemma step_keeps_dolly: "proxy s = None \<Longrightarrow> dolly (step forward e s) = dolly s"
  by (cases e)
     (auto simp add: onEnvironmentLoad_def onEnvironmentError_def
        loaderDefaultError_def onModelLoad_def
        setupXR_dolly elapse_def connectionTimeout_def dispatchEvent_def
        fold_runHandler_dolly render_def moveDolly_def Let_def
        split: option.splits timer.splits)

lemma run_keeps_proxy_undefined:
  "proxy s = None \<Longrightarrow> proxy (run forward es s) = None"
  by (induction es arbitrary: s) (simp_all add: step_keeps_proxy_undefined)

lemma run_keeps_dolly: "proxy s = None \<Longrightarrow> dolly (run forward es s) = dolly s"
  by (induction es arbitrary: s) (simp_all add: step_keeps_proxy_undefined step_keeps_dolly)

text \<open>
  C9: \<^verbatim>\<open>moveDolly\<close> returns at once while \<^verbatim>\<open>this.proxy\<close> is undefined, and no callback
  of the module assigns it. So in the state reached by any sequence of events after
  construction the proxy is undefined, every call of \<^verbatim>\<open>moveDolly\<close> returns the state
  it was given, and the dolly (position and orientation) is as the constructor left it.
\<close>

theorem moveDolly_noop_in_every_session:
  "proxy (run forward es (App_constructor devices)) = None \<and>
   moveDolly forward dt (run forward es (App_constructor devices)) =
     Inr (run forward es (App_constructor devices)) \<and>
   dolly (run forward es (App_constructor devices)) = dolly (App_constructor devices)"
  by (simp add: run_keeps_proxy_undefined run_keeps_dolly constructor_proxy moveDolly_guard)

section \<open>Where the dolly starts\<close>

text \<open>
  C10: the constructor puts the dolly at \<open>(0, 0, 10)\<close>. Its \<open>z\<close> coordinate has
  absolute value 10, above the limit 1.3, so the starting state is not within the
  \<open>\<plusminus>1.3\<close> boundary on the horizontal plane.
\<close>

theorem initial_position_outside_walls:
  "dollyPosition (App_constructor devices) = Some (Vector3 0 0 10) \<and>
   \<bar>vz (Vector3 0 0 10)\<bar> = 10 \<and> wallLimit < 10 \<and>
   \<not> withinWalls (Vector3 0 0 10)"
  by (simp add: dollyPosition_def constructor_dolly wallLimit_def withinWalls_def)

section \<open>The two controllers and their listeners\<close>

lemma buildControllers_value:
  "buildControllers s =
     [\<lparr>xrIndex = 0, selectPressed = False, listeners = []\<rparr>,
      \<lparr>xrIndex = 1, selectPressed = False, listeners = []\<rparr>]"
  by (simp add: buildControllers_def)

lemma setupXR_controllers:
  "controllers (setupXR s) =
     Some [\<lparr>xrIndex = 0, selectPressed = False, listeners = registered\<rparr>,
           \<lparr>xrIndex = 1, selectPressed = False, listeners = registered\<rparr>]"
  by (simp add: setupXR_def Let_def setTimeout_def buildControllers_value addListeners_def
      registered_def)

lemma setupXR_timeout: "timeout (setupXR s) = Pending (now s + connectionDelay)"
  by (simp add: setupXR_def Let_def setTimeout_def)

lemma handlersFor_registered:
  "listeners c = registered \<Longrightarrow>
     handlersFor ''selectstart'' c = [onSelectStart] \<and>
     handlersFor ''selectend'' c = [onSelectEnd] \<and>
     handlersFor ''connected'' c = [onConnected]"
  by (simp add: handlersFor_def registered_def)

lemma dispatch_registered:
  assumes "controllers t = Some cs" "i < length cs" "listeners (cs ! i) = registered"
  shows "dispatchEvent ''selectstart'' i t =
           t\<lparr>controllers := Some (cs[i := (cs ! i)\<lparr>selectPressed := True\<rparr>])\<rparr>"
    and "dispatchEvent ''selectend'' i t =
           t\<lparr>controllers := Some (cs[i := (cs ! i)\<lparr>selectPressed := False\<rparr>])\<rparr>"
    and "dispatchEvent ''connected'' i t = t\<lparr>timeout := clearTimeout (timeout t)\<rparr>"
  using assms by (simp_all add: dispatchEvent_def handlersFor_registered setSelectPressed_def)

lemma render_only_dolly: "\<exists>d. render forward dt s = s\<lparr>dolly := d\<rparr>"
proof (cases "moveDolly forward dt s")
  case (Inl e)
  then have "render forward dt s = s\<lparr>dolly := dolly s\<rparr>" by (simp add: render_def)
  then show ?thesis by blast
next
  case (Inr s')
  then have "render forward dt s = s \<or> (\<exists>d. render forward dt s = s\<lparr>dolly := d\<rparr>)"
    by (auto simp add: render_def moveDolly_def moveDolly_rest_def split: if_splits option.splits)
  moreover have "s = s\<lparr>dolly := dolly s\<rparr>" by simp
  ultimately show ?thesis by metis
qed

lemma handlersFor_registered_cases:
  "listeners c = registered \<Longrightarrow>
     handlersFor name c =
       (if name = ''selectstart'' then [onSelectStart]
        else if name = ''selectend'' then [onSelectEnd]
        else if name = ''connected'' then [onConnected] else [])"
  by (simp add: handlersFor_def registered_def)

lemma wired_setSelectPressed: "wired s \<Longrightarrow> wired (setSelectPressed i b s)"
  by (auto simp add: wired_def setSelectPressed_def list_all_length nth_list_update
      split: option.splits)

lemma setSelectPressed_only_controllers:
  "\<exists>cs. setSelectPressed i b s = s\<lparr>controllers := cs\<rparr>"
proof -
  have "setSelectPressed i b s = s \<or> (\<exists>cs. setSelectPressed i b s = s\<lparr>controllers := cs\<rparr>)"
    by (auto simp add: setSelectPressed_def split: option.splits)
  moreover have "s = s\<lparr>controllers := controllers s\<rparr>" by simp
  ultimately show ?thesis by metis
qed

lemma dispatch_wired:
  assumes "wired s"
  shows "dispatchEvent name i s =
           (if i \<le> 1 then
              (if name = ''selectstart'' then setSelectPressed i True s
               else if name = ''selectend'' then setSelectPressed i False s
               else if name = ''connected'' then s\<lparr>timeout := clearTimeout (timeout s)\<rparr>
               else s)
            else s)"
proof -
  from assms obtain cs where cs: "controllers s = Some cs" "length cs = 2"
      "list_all (\<lambda>c. listeners c = registered) cs"
    by (auto simp add: wired_def split: option.splits)
  show ?thesis
  proof (cases "i \<le> 1")
    case True
    then have "i < length cs" using cs by simp
    moreover from this cs have "listeners (cs ! i) = registered"
      by (simp add: list_all_length)
    ultimately show ?thesis using True cs
      by (simp add: dispatchEvent_def handlersFor_registered_cases)
  next
    case False
    then show ?thesis using cs by (simp add: dispatchEvent_def)
  qed
qed

text \<open>
  C6: setup allocates exactly two controllers, for the indices 0 and 1, whatever the
  number of physical devices (\<open>inputSources\<close>); each starts with
  \<open>selectPressed = False\<close> and gets three listeners. On a controller with these
  listeners a \<^verbatim>\<open>selectstart\<close> event sets that controller's \<open>selectPressed\<close> to true, a
  \<^verbatim>\<open>selectend\<close> event sets it to false, and a \<^verbatim>\<open>connected\<close> event clears the
  timeout, which setup armed 2000 ms ahead.
\<close>

theorem setupXR_two_handles_with_handlers:
  "controllers (setupXR s) =
     Some [\<lparr>xrIndex = 0, selectPressed = False, listeners = registered\<rparr>,
           \<lparr>xrIndex = 1, selectPressed = False, listeners = registered\<rparr>] \<and>
   controllers (setupXR (s\<lparr>inputSources := n\<rparr>)) = controllers (setupXR s) \<and>
   registered =
     [(''selectstart'', onSelectStart), (''selectend'', onSelectEnd),
      (''connected'', onConnected)] \<and>
   (controllers t = Some cs \<and> i < length cs \<and> listeners (cs ! i) = registered \<longrightarrow>
      step forward (XR ''selectstart'' i) t =
        t\<lparr>controllers := Some (cs[i := (cs ! i)\<lparr>selectPressed := True\<rparr>])\<rparr> \<and>
      step forward (XR ''selectend'' i) t =
        t\<lparr>controllers := Some (cs[i := (cs ! i)\<lparr>selectPressed := False\<rparr>])\<rparr> \<and>
      step forward (XR ''connected'' i) t = t\<lparr>timeout := clearTimeout (timeout t)\<rparr>) \<and>
   timeout (setupXR s) = Pending (now s + 2000) \<and>
   (i \<le> 1 \<longrightarrow> timeout (step forward (XR ''connected'' i) (setupXR s)) = Cleared)"
proof -
  have "wired (setupXR s)" by (simp add: wired_def setupXR_controllers)
  from dispatch_wired[OF this, of "''connected''" i]
  have "i \<le> 1 \<longrightarrow> timeout (step forward (XR ''connected'' i) (setupXR s)) = Cleared"
    by (simp add: setupXR_timeout)
  then show ?thesis
    by (simp add: setupXR_controllers setupXR_timeout connectionDelay_def dispatch_registered
        registered_def [symmetric])
qed

theorem setupXR_two_handles_with_handlers_witness:
  "map xrIndex (the (controllers (setupXR (App_constructor 3)))) = [0, 1] \<and>
   map selectPressed (the (controllers
     (step lookAlongNegZ (XR ''selectstart'' 1) (setupXR (App_constructor 3))))) =
     [False, True] \<and>
   map selectPressed (the (controllers
     (step lookAlongNegZ (XR ''selectend'' 1)
        (step lookAlongNegZ (XR ''selectstart'' 1) (setupXR (App_constructor 3)))))) =
     [False, False] \<and>
   timeout (step lookAlongNegZ (XR ''connected'' 1) (setupXR (App_constructor 3))) =
     Cleared"
  using setupXR_two_handles_with_handlers
    [of "App_constructor 3" 3 "setupXR (App_constructor 3)"
        "[\<lparr>xrIndex = 0, selectPressed = False, listeners = registered\<rparr>,
          \<lparr>xrIndex = 1, selectPressed = False, listeners = registered\<rparr>]" 1
        lookAlongNegZ]
  by (simp add: dispatchEvent_def handlersFor_def registered_def setSelectPressed_def)

section \<open>The connection timeout\<close>

lemma run_append: "run forward (xs @ ys) s = run forward ys (run forward xs s)"
  by (induction xs arbitrary: s) simp_all

lemma risingEdges_append:
  "risingEdges forward (xs @ ys) s =
     risingEdges forward xs s + risingEdges forward ys (run forward xs s)"
  by (induction xs arbitrary: s) simp_all

lemma awaiting_step:
  assumes "awaiting dl G s"
  shows "(\<not> connectedOnHandle e \<and> now s + elapsed [e] < dl \<and> awaiting dl G (step forward e s) \<and>
            now (step forward e s) = now s + elapsed [e] \<and> \<not> truthy (useGaze (step forward e s)))
       \<or> (connectedOnHandle e \<and> cancelled G (step forward e s))
       \<or> (\<not> connectedOnHandle e \<and> dl \<le> now s + elapsed [e] \<and> fallback G (step forward e s))"
proof (cases e)
  case (XR name i)
  from assms have w: "wired s" by (simp add: awaiting_def)
  obtain c1 where c1: "setSelectPressed i True s = s\<lparr>controllers := c1\<rparr>"
    using setSelectPressed_only_controllers by blast
  obtain c2 where c2: "setSelectPressed i False s = s\<lparr>controllers := c2\<rparr>"
    using setSelectPressed_only_controllers by blast
  have w1: "wired (s\<lparr>controllers := c1\<rparr>)" using wired_setSelectPressed[OF w, of i True] c1 by simp
  have w2: "wired (s\<lparr>controllers := c2\<rparr>)" using wired_setSelectPressed[OF w, of i False] c2 by simp
  show ?thesis using assms XR w1 w2
    by (auto simp add: dispatch_wired[OF w] c1 c2 awaiting_def cancelled_def wired_def)
next
  case (Frame dt)
  obtain d where "render forward dt s = s\<lparr>dolly := d\<rparr>" using render_only_dolly by blast
  then show ?thesis using assms Frame by (auto simp add: awaiting_def wired_def)
next
  case (Elapse d)
  then show ?thesis using assms
    by (auto simp add: awaiting_def wired_def elapse_def Let_def connectionTimeout_def
        fallback_def truthy_def GazeController_def)
qed (use assms in \<open>auto simp add: awaiting_def wired_def onEnvironmentLoad_def
        onEnvironmentError_def loaderDefaultError_def split: option.splits\<close>)

lemma settled_step:
  assumes "modelRequest s = None" "\<not> isPending (timeout s)"
  shows "modelRequest (step forward e s) = None \<and> timeout (step forward e s) = timeout s \<and>
         useGaze (step forward e s) = useGaze s \<and> gazeCreated (step forward e s) = gazeCreated s \<and>
         map_option gazeCamera (gazeController (step forward e s)) =
           map_option gazeCamera (gazeController s)"
proof (cases e)
  case (XR name i)
  have "\<And>hs t. modelRequest t = None \<and> \<not> isPending (timeout t) \<Longrightarrow>
      modelRequest (fold (\<lambda>h. runHandler h i) hs t) = None \<and>
      timeout (fold (\<lambda>h. runHandler h i) hs t) = timeout t \<and>
      useGaze (fold (\<lambda>h. runHandler h i) hs t) = useGaze t \<and>
      gazeCreated (fold (\<lambda>h. runHandler h i) hs t) = gazeCreated t \<and>
      gazeController (fold (\<lambda>h. runHandler h i) hs t) = gazeController t"
  proof -
    fix hs t show "modelRequest t = None \<and> \<not> isPending (timeout t) \<Longrightarrow>
      modelRequest (fold (\<lambda>h. runHandler h i) hs t) = None \<and>
      timeout (fold (\<lambda>h. runHandler h i) hs t) = timeout t \<and>
      useGaze (fold (\<lambda>h. runHandler h i) hs t) = useGaze t \<and>
      gazeCreated (fold (\<lambda>h. runHandler h i) hs t) = gazeCreated t \<and>
      gazeController (fold (\<lambda>h. runHandler h i) hs t) = gazeController t"
    proof (induction hs arbitrary: t)
      case Nil
      then show ?case by simp
    next
      case (Cons h hs)
      have "modelRequest (runHandler h i t) = None \<and> timeout (runHandler h i t) = timeout t \<and>
            useGaze (runHandler h i t) = useGaze t \<and> gazeCreated (runHandler h i t) = gazeCreated t \<and>
            gazeController (runHandler h i t) = gazeController t"
        using Cons.prems
        by (cases h; cases "timeout t")
           (auto simp add: setSelectPressed_def split: option.splits)
      with Cons.IH[of "runHandler h i t"] Cons.prems show ?case by simp
    qed
  qed
  with assms XR show ?thesis by (simp add: dispatchEvent_def split: option.splits)
next
  case (Frame dt)
  obtain d where "render forward dt s = s\<lparr>dolly := d\<rparr>" using render_only_dolly by blast
  then show ?thesis using assms Frame by auto
next
  case (Elapse d)
  then show ?thesis using assms by (cases "timeout s") (auto simp add: elapse_def Let_def)
qed (use assms in \<open>auto simp add: onEnvironmentLoad_def onEnvironmentError_def
        loaderDefaultError_def split: option.splits\<close>)

lemma settled_run:
  assumes "modelRequest s = None" "\<not> isPending (timeout s)"
  shows "modelRequest (run forward es s) = None \<and> timeout (run forward es s) = timeout s \<and>
         useGaze (run forward es s) = useGaze s \<and> gazeCreated (run forward es s) = gazeCreated s \<and>
         map_option gazeCamera (gazeController (run forward es s)) =
           map_option gazeCamera (gazeController s) \<and>
         risingEdges forward es s = 0"
  using assms
proof (induction es arbitrary: s)
  case Nil
  then show ?case by simp
next
  case (Cons e es)
  from settled_step[OF Cons.prems, of forward e]
  have st: "modelRequest (step forward e s) = None" "timeout (step forward e s) = timeout s"
    "useGaze (step forward e s) = useGaze s" "gazeCreated (step forward e s) = gazeCreated s"
    "map_option gazeCamera (gazeController (step forward e s)) =
       map_option gazeCamera (gazeController s)"
    by simp_all
  from Cons.IH[of "step forward e s"] st Cons.prems show ?case by simp
qed

lemma elapsed_Cons: "elapsed (e # es) = elapsed [e] + elapsed es"
  by (cases e) simp_all

lemma fallback_run:
  assumes "fallback G s"
  shows "fallback G (run forward es s) \<and> risingEdges forward es s = 0"
proof -
  from assms have "modelRequest s = None" "\<not> isPending (timeout s)"
    by (simp_all add: fallback_def)
  from settled_run[OF this, of forward es] assms show ?thesis
    by (simp add: fallback_def)
qed

lemma cancelled_run:
  assumes "cancelled G s"
  shows "cancelled G (run forward es s) \<and> risingEdges forward es s = 0"
proof -
  from assms have "modelRequest s = None" "\<not> isPending (timeout s)"
    by (simp_all add: cancelled_def)
  from settled_run[OF this, of forward es] assms show ?thesis
    by (simp add: cancelled_def)
qed

lemma awaiting_quiet_run:
  assumes "awaiting dl G s" "\<not> list_ex connectedOnHandle pre"
  shows "(now s + elapsed pre < dl \<and> awaiting dl G (run forward pre s) \<and>
            risingEdges forward pre s = 0)
       \<or> (dl \<le> now s + elapsed pre \<and> fallback G (run forward pre s) \<and>
            risingEdges forward pre s = 1)"
  using assms
proof (induction pre arbitrary: s)
  case Nil
  then show ?case by (simp add: awaiting_def)
next
  case (Cons e es)
  from Cons.prems have quiet: "\<not> connectedOnHandle e" "\<not> list_ex connectedOnHandle es"
    by simp_all
  from Cons.prems have low: "\<not> truthy (useGaze s)" by (simp add: awaiting_def)
  from awaiting_step[OF Cons.prems(1), of e forward] quiet
  consider (wait) "now s + elapsed [e] < dl" "awaiting dl G (step forward e s)"
      "now (step forward e s) = now s + elapsed [e]" "\<not> truthy (useGaze (step forward e s))"
    | (fire) "dl \<le> now s + elapsed [e]" "fallback G (step forward e s)"
    by blast
  then show ?case
  proof cases
    case wait
    from Cons.IH[OF wait(2) quiet(2)] wait(3,4) low show ?thesis
      using elapsed_Cons[of e es] by auto
  next
    case fire
    from fire(2) have "truthy (useGaze (step forward e s))"
      by (simp add: fallback_def truthy_def)
    with fallback_run[OF fire(2), of forward es] fire(1) low show ?thesis
      using elapsed_Cons[of e es] by auto
  qed
qed

lemma awaiting_early_run:
  assumes "awaiting dl G s" "now s + elapsed pre < dl"
  shows "(awaiting dl G (run forward pre s) \<or> cancelled G (run forward pre s)) \<and>
         risingEdges forward pre s = 0"
  using assms
proof (induction pre arbitrary: s)
  case Nil
  then show ?case by simp
next
  case (Cons e es)
  from Cons.prems have low: "\<not> truthy (useGaze s)" by (simp add: awaiting_def)
  from Cons.prems(2) have early: "now s + elapsed [e] + elapsed es < dl"
    using elapsed_Cons[of e es] by simp
  from awaiting_step[OF Cons.prems(1), of e forward] early
  consider (wait) "awaiting dl G (step forward e s)"
      "now (step forward e s) = now s + elapsed [e]" "\<not> truthy (useGaze (step forward e s))"
    | (cancel) "cancelled G (step forward e s)"
    by fastforce
  then show ?case
  proof cases
    case wait
    from early wait(2) have "now (step forward e s) + elapsed es < dl" by simp
    from Cons.IH[OF wait(1) this] wait(3) show ?thesis by simp
  next
    case cancel
    then have "\<not> truthy (useGaze (step forward e s))" by (simp add: cancelled_def)
    with cancelled_run[OF cancel, of forward es] show ?thesis by simp
  qed
qed

lemma setupXR_awaiting:
  assumes "modelRequest s0 = None" "\<not> truthy (useGaze s0)"
  shows "awaiting (now s0 + connectionDelay) (gazeCreated s0) (setupXR s0)"
  using assms
  by (simp add: awaiting_def wired_def setupXR_controllers setupXR_timeout)
     (simp add: setupXR_def Let_def setTimeout_def connectionDelay_def)

lemma connected_cancels:
  assumes "awaiting dl G s \<or> cancelled G s" "i \<le> 1"
  shows "cancelled G (step forward (XR ''connected'' i) s)"
  using assms(1)
proof
  assume "awaiting dl G s"
  from awaiting_step[OF this, of "XR ''connected'' i" forward] assms(2) show ?thesis by simp
next
  assume c: "cancelled G s"
  then have "modelRequest s = None" "\<not> isPending (timeout s)" by (simp_all add: cancelled_def)
  from settled_step[OF this, of forward "XR ''connected'' i"] c show ?thesis
    by (simp add: cancelled_def)
qed

lemma models_loaded:
  "\<exists>s0. run forward [ModelLoaded, ModelLoaded, ModelLoaded] (App_constructor n) = setupXR s0 \<and>
        modelRequest s0 = None \<and> useGaze s0 = None \<and> gazeCreated s0 = []"
proof -
  let ?s0 = "(App_constructor n)\<lparr>scene := [DollyNode, AmbientLight, Model 1, Model 2, Model 3],
               modelRequest := None, loadingBarVisible := Some False\<rparr>"
  have "run forward [ModelLoaded, ModelLoaded, ModelLoaded] (App_constructor n) = setupXR ?s0"
    by (simp add: App_constructor_def loadModels_def setEnvironment_def onModelLoad_def)
  moreover have "modelRequest ?s0 = None \<and> useGaze ?s0 = None \<and> gazeCreated ?s0 = []"
    by (simp add: App_constructor_def loadModels_def setEnvironment_def)
  ultimately show ?thesis by blast
qed

text \<open>
  C3: setup (called from the success callback of the last model request, so with no
  model request in flight) has just armed the timer, 2000 ms ahead, with the fallback
  flag not set. If the events that follow carry no \<^verbatim>\<open>connected\<close> signal on either
  controller while 2000 ms elapse, then over these events and any events after them
  \<^verbatim>\<open>useGaze\<close> goes from false to true exactly once and ends true, exactly one
  \<^verbatim>\<open>GazeController\<close> is created, and it is bound to \<^verbatim>\<open>dummyCam\<close>.
\<close>

theorem fallback_armed_exactly_once:
  assumes "modelRequest s0 = None" and "\<not> truthy (useGaze s0)"
    and "\<not> list_ex connectedOnHandle pre" and "connectionDelay \<le> elapsed pre"
  shows "connectionDelay = 2000 \<and>
         risingEdges forward (pre @ post) (setupXR s0) = 1 \<and>
         useGaze (run forward (pre @ post) (setupXR s0)) = Some True \<and>
         gazeCreated (run forward (pre @ post) (setupXR s0)) =
           gazeCreated s0 @ [GazeController SceneRef DummyCamRef] \<and>
         map_option gazeCamera (gazeController (run forward (pre @ post) (setupXR s0))) =
           Some DummyCamRef"
proof -
  have "now (setupXR s0) = now s0" by (simp add: setupXR_def Let_def setTimeout_def)
  with awaiting_quiet_run[OF setupXR_awaiting[OF assms(1,2)] assms(3), of forward] assms(4)
  have f: "fallback (gazeCreated s0) (run forward pre (setupXR s0))"
    and r: "risingEdges forward pre (setupXR s0) = 1"
    by auto
  from fallback_run[OF f, of forward post] r show ?thesis
    by (simp add: run_append risingEdges_append fallback_def connectionDelay_def)
qed

theorem fallback_armed_exactly_once_witness:
  "risingEdges lookAlongNegZ ([Elapse 1500, Elapse 500] @ [XR ''connected'' 1])
     (run lookAlongNegZ [ModelLoaded, ModelLoaded, ModelLoaded] (App_constructor 0)) = 1 \<and>
   gazeCreated (run lookAlongNegZ ([Elapse 1500, Elapse 500] @ [XR ''connected'' 1])
     (run lookAlongNegZ [ModelLoaded, ModelLoaded, ModelLoaded] (App_constructor 0))) =
     [GazeController SceneRef DummyCamRef]"
proof -
  obtain s0 where s0: "run lookAlongNegZ [ModelLoaded, ModelLoaded, ModelLoaded]
      (App_constructor 0) = setupXR s0" "modelRequest s0 = None" "useGaze s0 = None"
      "gazeCreated s0 = []"
    using models_loaded by blast
  have "\<not> truthy (useGaze s0)" using s0(3) by (simp add: truthy_def)
  moreover have "\<not> list_ex connectedOnHandle [Elapse 1500, Elapse 500]" by simp
  moreover have "connectionDelay \<le> elapsed [Elapse 1500, Elapse 500]"
    by (simp add: connectionDelay_def)
  ultimately have "risingEdges lookAlongNegZ
        ([Elapse 1500, Elapse 500] @ [XR ''connected'' 1]) (setupXR s0) = 1 \<and>
      gazeCreated (run lookAlongNegZ
        ([Elapse 1500, Elapse 500] @ [XR ''connected'' 1]) (setupXR s0)) =
        gazeCreated s0 @ [GazeController SceneRef DummyCamRef]"
    using fallback_armed_exactly_once
      [of s0 "[Elapse 1500, Elapse 500]" lookAlongNegZ "[XR ''connected'' 1]"] s0(2)
    by blast
  then show ?thesis unfolding s0(1) s0(4) by simp
qed

text \<open>
  C4: setup (called with no model request in flight) has just armed the timer with the
  fallback flag not set. If a
  \<^verbatim>\<open>connected\<close> signal arrives on controller 0 or 1 before 2000 ms have elapsed, the
  timer is cleared at that event and stays cleared, and whatever follows (a later
  \<^verbatim>\<open>disconnected\<close> event included) \<^verbatim>\<open>useGaze\<close> never becomes true and no
  \<^verbatim>\<open>GazeController\<close> is created.
\<close>

theorem connect_cancels_fallback:
  assumes "modelRequest s0 = None" and "\<not> truthy (useGaze s0)"
    and "elapsed pre < connectionDelay" and "i \<le> 1"
  shows "timeout (run forward (pre @ [XR ''connected'' i]) (setupXR s0)) = Cleared \<and>
         timeout (run forward (pre @ XR ''connected'' i # post) (setupXR s0)) = Cleared \<and>
         \<not> truthy (useGaze (run forward (pre @ XR ''connected'' i # post) (setupXR s0))) \<and>
         risingEdges forward (pre @ XR ''connected'' i # post) (setupXR s0) = 0 \<and>
         gazeCreated (run forward (pre @ XR ''connected'' i # post) (setupXR s0)) =
           gazeCreated s0"
proof -
  let ?G = "gazeCreated s0"
  have "now (setupXR s0) = now s0" by (simp add: setupXR_def Let_def setTimeout_def)
  with assms(3) have "now (setupXR s0) + elapsed pre < now s0 + connectionDelay" by simp
  from awaiting_early_run[OF setupXR_awaiting[OF assms(1,2)] this, of forward]
  have p: "awaiting (now s0 + connectionDelay) ?G (run forward pre (setupXR s0)) \<or>
           cancelled ?G (run forward pre (setupXR s0))"
    and r: "risingEdges forward pre (setupXR s0) = 0"
    by simp_all
  from p have low: "\<not> truthy (useGaze (run forward pre (setupXR s0)))"
    by (auto simp add: awaiting_def cancelled_def)
  from connected_cancels[OF p assms(4), of forward]
  have c: "cancelled ?G (step forward (XR ''connected'' i) (run forward pre (setupXR s0)))" .
  then have low': "\<not> truthy (useGaze (step forward (XR ''connected'' i) (run forward pre (setupXR s0))))"
    by (simp add: cancelled_def)
  from cancelled_run[OF c, of forward post] c r low low' show ?thesis
    by (simp add: run_append risingEdges_append cancelled_def)
qed

theorem connect_cancels_fallback_witness:
  "timeout (run lookAlongNegZ ([Elapse 500] @ [XR ''connected'' 1])
     (run lookAlongNegZ [ModelLoaded, ModelLoaded, ModelLoaded] (App_constructor 2))) =
     Cleared \<and>
   \<not> truthy (useGaze (run lookAlongNegZ
     ([Elapse 500] @ XR ''connected'' 1 # [Elapse 5000, XR ''disconnected'' 1, Elapse 5000])
     (run lookAlongNegZ [ModelLoaded, ModelLoaded, ModelLoaded] (App_constructor 2))))"
proof -
  obtain s0 where s0: "run lookAlongNegZ [ModelLoaded, ModelLoaded, ModelLoaded]
      (App_constructor 2) = setupXR s0" "modelRequest s0 = None" "useGaze s0 = None"
    using models_loaded by blast
  have "\<not> truthy (useGaze s0)" using s0(3) by (simp add: truthy_def)
  moreover have "elapsed [Elapse 500] < connectionDelay" by (simp add: connectionDelay_def)
  moreover have "(1::nat) \<le> 1" by simp
  ultimately have "timeout (run lookAlongNegZ ([Elapse 500] @ [XR ''connected'' 1])
        (setupXR s0)) = Cleared \<and>
      \<not> truthy (useGaze (run lookAlongNegZ
        ([Elapse 500] @ XR ''connected'' 1 # [Elapse 5000, XR ''disconnected'' 1, Elapse 5000])
        (setupXR s0)))"
    using connect_cancels_fallback
      [of s0 "[Elapse 500]" 1 lookAlongNegZ
          "[Elapse 5000, XR ''disconnected'' 1, Elapse 5000]"] s0(2)
    by blast
  then show ?thesis unfolding s0(1) by simp
qed

section \<open>The fallback flag is never cleared\<close>

lemma fold_runHandler_gaze:
  "useGaze (fold (\<lambda>h. runHandler h i) hs s) = useGaze s \<and>
   gazeController (fold (\<lambda>h. runHandler h i) hs s) = gazeController s"
proof (induction hs arbitrary: s)
  case Nil
  then show ?case by simp
next
  case (Cons h hs)
  have "useGaze (runHandler h i s) = useGaze s \<and>
        gazeController (runHandler h i s) = gazeController s"
    by (cases h) (auto simp add: setSelectPressed_def split: option.splits)
  with Cons.IH[of "runHandler h i s"] show ?case by simp
qed

lemma step_keeps_fallback:
  "(truthy (useGaze s) \<longrightarrow> truthy (useGaze (step forward e s))) \<and>
   (gazeController s \<noteq> None \<longrightarrow> gazeController (step forward e s) \<noteq> None)"
proof (cases e)
  case (XR name i)
  then show ?thesis by (simp add: dispatchEvent_def fold_runHandler_gaze split: option.splits)
next
  case (Frame dt)
  obtain d where "render forward dt s = s\<lparr>dolly := d\<rparr>" using render_only_dolly by blast
  then show ?thesis using Frame by auto
next
  case (Elapse d)
  then show ?thesis
    by (auto simp add: elapse_def Let_def connectionTimeout_def truthy_def split: timer.splits)
next
  case ModelLoaded
  then show ?thesis
    by (auto simp add: onModelLoad_def setupXR_def Let_def setTimeout_def split: option.splits)
qed (auto simp add: onEnvironmentLoad_def onEnvironmentError_def loaderDefaultError_def
      split: option.splits)

text \<open>
  C5: once \<^verbatim>\<open>useGaze\<close> is true, it is true after every further sequence of events,
  \<^verbatim>\<open>connected\<close> signals included; it never goes from false to true again, because it
  never is false again; and a \<^verbatim>\<open>GazeController\<close> that exists stays in place.
\<close>

theorem fallback_flag_never_cleared:
  assumes "truthy (useGaze s)"
  shows "truthy (useGaze (run forward es s)) \<and> risingEdges forward es s = 0 \<and>
         (gazeController s \<noteq> None \<longrightarrow> gazeController (run forward es s) \<noteq> None)"
  using assms
proof (induction es arbitrary: s)
  case Nil
  then show ?case by simp
next
  case (Cons e es)
  from step_keeps_fallback[of s forward e] Cons.prems
  have t: "truthy (useGaze (step forward e s))"
    and g: "gazeController s \<noteq> None \<longrightarrow> gazeController (step forward e s) \<noteq> None"
    by simp_all
  from Cons.IH[OF t] g Cons.prems show ?case by simp
qed

lemma timed_out:
  "useGaze (run forward [ModelLoaded, ModelLoaded, ModelLoaded, Elapse 2000] (App_constructor n)) =
     Some True \<and>
   gazeController (run forward [ModelLoaded, ModelLoaded, ModelLoaded, Elapse 2000]
     (App_constructor n)) = Some (GazeController SceneRef DummyCamRef)"
  by (simp add: App_constructor_def loadModels_def setEnvironment_def onModelLoad_def
      setupXR_def Let_def setTimeout_def connectionDelay_def elapse_def connectionTimeout_def)

theorem fallback_flag_never_cleared_witness:
  "truthy (useGaze (run lookAlongNegZ
      [ModelLoaded, ModelLoaded, ModelLoaded, Elapse 2000] (App_constructor 0))) \<and>
   truthy (useGaze (run lookAlongNegZ [XR ''connected'' 0, Frame 0.1, Elapse 9000]
     (run lookAlongNegZ
        [ModelLoaded, ModelLoaded, ModelLoaded, Elapse 2000] (App_constructor 0)))) \<and>
   gazeController (run lookAlongNegZ [XR ''connected'' 0, Frame 0.1, Elapse 9000]
     (run lookAlongNegZ
        [ModelLoaded, ModelLoaded, ModelLoaded, Elapse 2000] (App_constructor 0))) \<noteq> None"
proof -
  let ?s = "run lookAlongNegZ
      [ModelLoaded, ModelLoaded, ModelLoaded, Elapse 2000] (App_constructor 0)"
  have t: "truthy (useGaze ?s)" and g: "gazeController ?s \<noteq> None"
    using timed_out[of lookAlongNegZ 0] by (simp_all add: truthy_def)
  from fallback_flag_never_cleared[OF t, of lookAlongNegZ
      "[XR ''connected'' 0, Frame 0.1, Elapse 9000]"] t g
  show ?thesis by blast
qed

section \<open>Load failures\<close>

lemma runHandler_env:
  "runHandler h i (s\<lparr>environment := a, console := b, envRequest := c\<rparr>) =
     (runHandler h i s)\<lparr>environment := a, console := b, envRequest := c\<rparr>"
  by (cases h) (simp_all add: setSelectPressed_def split: option.splits)

lemma fold_runHandler_env:
  "fold (\<lambda>h. runHandler h i) hs (s\<lparr>environment := a, console := b, envRequest := c\<rparr>) =
     (fold (\<lambda>h. runHandler h i) hs s)\<lparr>environment := a, console := b, envRequest := c\<rparr>"
  by (induction hs arbitrary: s) (simp_all add: runHandler_env)

lemma setupXR_env:
  "setupXR (s\<lparr>environment := a, console := b, envRequest := c\<rparr>) =
     (setupXR s)\<lparr>environment := a, console := b, envRequest := c\<rparr>"
  by (simp add: setupXR_def Let_def setTimeout_def buildControllers_def)

lemma render_env:
  "render forward dt (s\<lparr>environment := a, console := b, envRequest := c\<rparr>) =
     (render forward dt s)\<lparr>environment := a, console := b, envRequest := c\<rparr>"
  by (simp add: render_def moveDolly_def moveDolly_rest_def target_def anySelectPressed_def
      gazeSelected_def split: option.splits)

lemma step_env:
  assumes "e \<noteq> EnvLoaded" "e \<noteq> EnvFailed" "e \<noteq> ModelFailed"
  shows "step forward e (s\<lparr>environment := a, console := b, envRequest := c\<rparr>) =
           (step forward e s)\<lparr>environment := a, console := b, envRequest := c\<rparr>"
proof (cases e)
  case (XR name i)
  then show ?thesis by (simp add: dispatchEvent_def fold_runHandler_env split: option.splits)
next
  case (Frame dt)
  then show ?thesis by (simp add: render_env)
next
  case (Elapse d)
  then show ?thesis
    by (simp add: elapse_def Let_def connectionTimeout_def split: timer.splits)
next
  case ModelLoaded
  then show ?thesis
    by (cases s)
       (simp add: onModelLoad_def setupXR_def Let_def setTimeout_def buildControllers_def
          split: option.splits)
qed (use assms in \<open>simp_all split: option.splits\<close>)

lemma step_exceptEnvironment:
  "exceptEnvironment s = exceptEnvironment t \<Longrightarrow>
     exceptEnvironment (step forward e s) = exceptEnvironment (step forward e t)"
proof -
  assume eq: "exceptEnvironment s = exceptEnvironment t"
  consider (env) "e = EnvLoaded \<or> e = EnvFailed" | (model) "e = ModelFailed"
    | (other) "e \<noteq> EnvLoaded" "e \<noteq> EnvFailed" "e \<noteq> ModelFailed"
    by blast
  then show ?thesis
  proof cases
    case env
    then have "\<And>u. exceptEnvironment (step forward e u) = exceptEnvironment u"
      by (auto simp add: exceptEnvironment_def onEnvironmentLoad_def onEnvironmentError_def)
    with eq show ?thesis by simp
  next
    case model
    let ?g = "\<lambda>x. case modelRequest x of None \<Rightarrow> x | Some k \<Rightarrow> x\<lparr>modelRequest := None\<rparr>"
    have g: "\<And>u. exceptEnvironment (step forward ModelFailed u) = ?g (exceptEnvironment u)"
      by (simp add: exceptEnvironment_def loaderDefaultError_def split: option.splits)
    have "exceptEnvironment (step forward e s) = ?g (exceptEnvironment s)"
      unfolding model by (rule g)
    also have "\<dots> = ?g (exceptEnvironment t)" by (simp only: eq)
    also have "\<dots> = exceptEnvironment (step forward e t)"
      unfolding model by (rule g [symmetric])
    finally show ?thesis .
  next
    case other
    then have "\<And>u. exceptEnvironment (step forward e u) = step forward e (exceptEnvironment u)"
      by (simp add: exceptEnvironment_def step_env)
    with eq show ?thesis by simp
  qed
qed

lemma run_exceptEnvironment:
  "exceptEnvironment s = exceptEnvironment t \<Longrightarrow>
     exceptEnvironment (run forward es s) = exceptEnvironment (run forward es t)"
proof (induction es arbitrary: s t)
  case Nil
  then show ?case by simp
next
  case (Cons e es)
  from Cons.IH[OF step_exceptEnvironment[OF Cons.prems, of forward e]] show ?case by simp
qed

lemma exceptEnvironment_fields:
  "scene (exceptEnvironment s) = scene s" "xrEnabled (exceptEnvironment s) = xrEnabled s"
  "animationLoop (exceptEnvironment s) = animationLoop s"
  "modelRequest (exceptEnvironment s) = modelRequest s"
  by (simp_all add: exceptEnvironment_def)

lemma environment_failure_ignored:
  assumes "envRequest s = InFlight"
  shows "exceptEnvironment (run forward es (step forward EnvFailed s)) =
           exceptEnvironment (run forward es s) \<and>
         scene (run forward es (step forward EnvFailed s)) = scene (run forward es s) \<and>
         xrEnabled (run forward es (step forward EnvFailed s)) = xrEnabled (run forward es s) \<and>
         animationLoop (run forward es (step forward EnvFailed s)) =
           animationLoop (run forward es s)"
proof -
  have "exceptEnvironment (step forward EnvFailed s) = exceptEnvironment s"
    by (simp add: exceptEnvironment_def onEnvironmentError_def loaderDefaultError_def)
  from run_exceptEnvironment[OF this, of forward es]
  have eq: "exceptEnvironment (run forward es (step forward EnvFailed s)) =
           exceptEnvironment (run forward es s)" .
  from arg_cong[OF eq, of scene] arg_cong[OF eq, of xrEnabled] arg_cong[OF eq, of animationLoop]
  have "scene (run forward es (step forward EnvFailed s)) = scene (run forward es s)"
    and "xrEnabled (run forward es (step forward EnvFailed s)) = xrEnabled (run forward es s)"
    and "animationLoop (run forward es (step forward EnvFailed s)) =
           animationLoop (run forward es s)"
    by (simp_all only: exceptEnvironment_fields)
  with eq show ?thesis by blast
qed

lemma fold_runHandler_setup:
  "modelRequest (fold (\<lambda>h. runHandler h i) hs s) = modelRequest s \<and>
   scene (fold (\<lambda>h. runHandler h i) hs s) = scene s \<and>
   xrEnabled (fold (\<lambda>h. runHandler h i) hs s) = xrEnabled s \<and>
   animationLoop (fold (\<lambda>h. runHandler h i) hs s) = animationLoop s"
proof (induction hs arbitrary: s)
  case Nil
  then show ?case by simp
next
  case (Cons h hs)
  have "modelRequest (runHandler h i s) = modelRequest s \<and> scene (runHandler h i s) = scene s \<and>
        xrEnabled (runHandler h i s) = xrEnabled s \<and>
        animationLoop (runHandler h i s) = animationLoop s"
    by (cases h) (auto simp add: setSelectPressed_def split: option.splits)
  with Cons.IH[of "runHandler h i s"] show ?case by simp
qed

lemma stalled_step:
  assumes "modelRequest s = None"
  shows "modelRequest (step forward e s) = None \<and> scene (step forward e s) = scene s \<and>
         xrEnabled (step forward e s) = xrEnabled s \<and>
         animationLoop (step forward e s) = animationLoop s"
proof (cases e)
  case (XR name i)
  then show ?thesis using assms
    by (simp add: dispatchEvent_def fold_runHandler_setup split: option.splits)
next
  case (Frame dt)
  obtain d where "render forward dt s = s\<lparr>dolly := d\<rparr>" using render_only_dolly by blast
  then show ?thesis using assms Frame by auto
next
  case (Elapse d)
  then show ?thesis using assms
    by (auto simp add: elapse_def Let_def connectionTimeout_def split: timer.splits)
qed (use assms in \<open>auto simp add: onEnvironmentLoad_def onEnvironmentError_def
        loaderDefaultError_def split: option.splits\<close>)

lemma stalled_run:
  assumes "modelRequest s = None"
  shows "modelRequest (run forward es s) = None \<and> scene (run forward es s) = scene s \<and>
         xrEnabled (run forward es s) = xrEnabled s \<and>
         animationLoop (run forward es s) = animationLoop s"
  using assms
proof (induction es arbitrary: s)
  case Nil
  then show ?case by simp
next
  case (Cons e es)
  from stalled_step[OF Cons.prems, of forward e] Cons.IH[of "step forward e s"]
  show ?case by simp
qed

text \<open>
  C8, as the spec states it: after a failed model load the remaining setup steps still
  occur. With three successful loads the animation loop is registered. When the first
  model request fails, the failure is logged and no callback of the application runs:
  the later loads are never requested, XR is not enabled, no animation loop is
  registered, and the scene stays as the constructor left it.
\<close>

theorem load_failure_counterexample:
  "animationLoop (run lookAlongNegZ [ModelLoaded, ModelLoaded, ModelLoaded]
     (App_constructor 0)) \<and>
   \<not> animationLoop (run lookAlongNegZ
     [ModelFailed, ModelLoaded, ModelLoaded, ModelLoaded] (App_constructor 0)) \<and>
   \<not> xrEnabled (run lookAlongNegZ
     [ModelFailed, ModelLoaded, ModelLoaded, ModelLoaded] (App_constructor 0)) \<and>
   scene (run lookAlongNegZ
     [ModelFailed, ModelLoaded, ModelLoaded, ModelLoaded] (App_constructor 0)) =
     [DollyNode, AmbientLight] \<and>
   console (run lookAlongNegZ
     [ModelFailed, ModelLoaded, ModelLoaded, ModelLoaded] (App_constructor 0)) =
     [LoaderError 1]"
  by (simp add: App_constructor_def loadModels_def setEnvironment_def onModelLoad_def
      setupXR_def Let_def setTimeout_def loaderDefaultError_def)

text \<open>
  C8, amended. Every load failure is logged and aborts nothing. A failure of the HDR
  request is otherwise ignored: whatever events follow, the session is the one it would
  have been without the failure in everything but the console, the environment map and
  the state of the request; in particular the scene, XR and the animation loop are set
  up alike. A failure of a model request ends the chain of loads: the models still to
  come are never added to the scene, XR is not set up and no animation loop is
  registered, whatever events follow.
\<close>

theorem load_failures:
  "(envRequest s = InFlight \<longrightarrow>
      step forward EnvFailed s =
        s\<lparr>envRequest := Finished,
          console := console s @ [Message ''An error occurred setting the environment'']\<rparr> \<and>
      exceptEnvironment (run forward es (step forward EnvFailed s)) =
        exceptEnvironment (run forward es s) \<and>
      scene (run forward es (step forward EnvFailed s)) = scene (run forward es s) \<and>
      xrEnabled (run forward es (step forward EnvFailed s)) = xrEnabled (run forward es s) \<and>
      animationLoop (run forward es (step forward EnvFailed s)) =
        animationLoop (run forward es s)) \<and>
   (modelRequest s = Some k \<longrightarrow>
      console (step forward ModelFailed s) = console s @ [LoaderError k] \<and>
      modelRequest (run forward es (step forward ModelFailed s)) = None \<and>
      scene (run forward es (step forward ModelFailed s)) = scene s \<and>
      xrEnabled (run forward es (step forward ModelFailed s)) = xrEnabled s \<and>
      animationLoop (run forward es (step forward ModelFailed s)) = animationLoop s)"
proof -
  have "modelRequest s = Some k \<Longrightarrow> modelRequest (step forward ModelFailed s) = None"
    by (simp add: loaderDefaultError_def)
  from stalled_run[OF this, of forward es]
  have "modelRequest s = Some k \<longrightarrow>
      console (step forward ModelFailed s) = console s @ [LoaderError k] \<and>
      modelRequest (run forward es (step forward ModelFailed s)) = None \<and>
      scene (run forward es (step forward ModelFailed s)) = scene s \<and>
      xrEnabled (run forward es (step forward ModelFailed s)) = xrEnabled s \<and>
      animationLoop (run forward es (step forward ModelFailed s)) = animationLoop s"
    by (auto simp add: loaderDefaultError_def)
  moreover have "envRequest s = InFlight \<longrightarrow>
      step forward EnvFailed s =
        s\<lparr>envRequest := Finished,
          console := console s @ [Message ''An error occurred setting the environment'']\<rparr>"
    by (simp add: onEnvironmentError_def loaderDefaultError_def)
  ultimately show ?thesis
    using environment_failure_ignored[of s forward es] by blast
qed

theorem load_failures_witness:
  "console (step lookAlongNegZ EnvFailed (App_constructor 0)) =
     [Message ''An error occurred setting the environment''] \<and>
   console (step lookAlongNegZ ModelFailed (App_constructor 0)) = [LoaderError 1] \<and>
   animationLoop (run lookAlongNegZ [ModelLoaded, ModelLoaded, ModelLoaded]
     (step lookAlongNegZ EnvFailed (App_constructor 0))) \<and>
   \<not> animationLoop (run lookAlongNegZ [ModelLoaded, ModelLoaded, ModelLoaded]
     (step lookAlongNegZ ModelFailed (App_constructor 0)))"
proof -
  have e: "envRequest (App_constructor 0) = InFlight"
    and m: "modelRequest (App_constructor 0) = Some 1"
    and c: "console (App_constructor 0) = []"
    and a: "\<not> animationLoop (App_constructor 0)"
    by (simp_all add: App_constructor_def loadModels_def setEnvironment_def)
  have ok: "animationLoop (run lookAlongNegZ [ModelLoaded, ModelLoaded, ModelLoaded]
     (App_constructor 0))"
    by (simp add: App_constructor_def loadModels_def setEnvironment_def onModelLoad_def
      setupXR_def Let_def setTimeout_def)
  from load_failures[of "App_constructor 0" lookAlongNegZ
      "[ModelLoaded, ModelLoaded, ModelLoaded]" 1] e m
  have "step lookAlongNegZ EnvFailed (App_constructor 0) =
      (App_constructor 0)\<lparr>envRequest := Finished,
        console := console (App_constructor 0) @
          [Message ''An error occurred setting the environment'']\<rparr>"
    and "console (step lookAlongNegZ ModelFailed (App_constructor 0)) =
      console (App_constructor 0) @ [LoaderError 1]"
    and "animationLoop (run lookAlongNegZ [ModelLoaded, ModelLoaded, ModelLoaded]
       (step lookAlongNegZ EnvFailed (App_constructor 0))) =
       animationLoop (run lookAlongNegZ [ModelLoaded, ModelLoaded, ModelLoaded]
         (App_constructor 0))"
    and "animationLoop (run lookAlongNegZ [ModelLoaded, ModelLoaded, ModelLoaded]
       (step lookAlongNegZ ModelFailed (App_constructor 0))) =
       animationLoop (App_constructor 0)"
    by blast+
  with ok a c show ?thesis by simp
qed

section \<open>Movement and the walls\<close>

lemma clampAxis_bounded: "\<bar>clampAxis v\<bar> \<le> wallLimit"
  by (simp add: clampAxis_def wallLimit_def)

lemma clampAxis_cases:
  "(wallLimit < v \<longrightarrow> clampAxis v = wallLimit) \<and>
   (v < - wallLimit \<longrightarrow> clampAxis v = - wallLimit) \<and>
   (\<bar>v\<bar> \<le> wallLimit \<longrightarrow> clampAxis v = v)"
  by (auto simp add: clampAxis_def wallLimit_def)

lemma withinWalls_clampToWalls: "withinWalls (clampToWalls p)"
  by (simp add: withinWalls_def clampToWalls_def clampAxis_bounded)

lemma clampToWalls_within: "withinWalls p \<Longrightarrow> clampToWalls p = p"
  by (cases p) (simp add: withinWalls_def clampToWalls_def clampAxis_cases)

lemma moveDolly_past_guard:
  assumes "proxy s \<noteq> None" "dolly s = Some d"
  shows "moveDolly forward dt s =
           Inr (s\<lparr>dolly := Some (d\<lparr>position := clampToWalls (target forward dt d s)\<rparr>)\<rparr>)"
  using assms by (cases "proxy s") (simp_all add: moveDolly_def moveDolly_rest_def)

lemma elapse_dolly: "dolly (elapse d s) = dolly s"
  by (simp add: elapse_def Let_def connectionTimeout_def split: timer.splits)

lemma step_dolly:
  "dolly (step forward e s) = dolly s \<or>
   (\<exists>dt d. e = Frame dt \<and> dolly s = Some d \<and>
      dolly (step forward e s) = Some (d\<lparr>position := clampToWalls (target forward dt d s)\<rparr>))"
proof (cases e)
  case (Frame dt)
  then show ?thesis
    by (auto simp add: render_def moveDolly_def moveDolly_rest_def split: option.splits)
next
  case (XR name i)
  then show ?thesis by (simp add: dispatchEvent_def fold_runHandler_dolly split: option.splits)
next
  case ModelLoaded
  then show ?thesis by (simp add: onModelLoad_def setupXR_dolly split: option.splits)
qed (simp_all add: elapse_dolly onEnvironmentLoad_def onEnvironmentError_def
      loaderDefaultError_def split: option.splits)

lemma step_withinWalls:
  assumes "dolly s = Some d" "withinWalls (position d)"
  shows "\<exists>d'. dolly (step forward e s) = Some d' \<and> withinWalls (position d')"
  using step_dolly[of forward e s] assms by (auto simp add: withinWalls_clampToWalls)

lemma run_withinWalls:
  assumes "dolly s = Some d" "withinWalls (position d)"
  shows "\<exists>d'. dolly (run forward es s) = Some d' \<and> withinWalls (position d')"
  using assms
proof (induction es arbitrary: s d)
  case Nil
  then show ?case by simp
next
  case (Cons e es)
  from step_withinWalls[OF Cons.prems, of forward e]
  obtain d' where "dolly (step forward e s) = Some d'" "withinWalls (position d')" by blast
  from Cons.IH[OF this] show ?case by simp
qed

lemma selection_held:
  "anySelectPressed (run forward [ModelLoaded, ModelLoaded, ModelLoaded, XR ''selectstart'' 0]
     (App_constructor n)) \<and>
   proxy (run forward [ModelLoaded, ModelLoaded, ModelLoaded, XR ''selectstart'' 0]
     (App_constructor n)) = None \<and>
   dolly (run forward [ModelLoaded, ModelLoaded, ModelLoaded, XR ''selectstart'' 0]
     (App_constructor n)) = Some (Object3D\<lparr>position := Vector3 0 0 10\<rparr>) \<and>
   animationLoop (run forward [ModelLoaded, ModelLoaded, ModelLoaded, XR ''selectstart'' 0]
     (App_constructor n))"
  by (simp add: App_constructor_def loadModels_def setEnvironment_def onModelLoad_def
      setupXR_def Let_def setTimeout_def buildControllers_def addListeners_def registered_def
      dispatchEvent_def handlersFor_def setSelectPressed_def anySelectPressed_def)

text \<open>
  C1, as the spec states it: an update whose movement would cross the 1.3 limit holds
  the position at the boundary. Take the session after setup with the select button of
  controller 0 held, and put the dolly at \<open>(1.2, 0, 0)\<close>, within bounds, looking along
  \<open>x\<close>. A step of 0.1 s at speed 2 would reach \<open>x = 1.4\<close>. The proxy is undefined, so
  the update returns at line 194 and \<open>x\<close> stays 1.2, which is not the boundary.
\<close>

theorem walls_hold_counterexample:
  "withinWalls (Vector3 1.2 0 0) \<and>
   anySelectPressed
     ((run lookAlongX [ModelLoaded, ModelLoaded, ModelLoaded, XR ''selectstart'' 0]
        (App_constructor 0))\<lparr>dolly := Some (Object3D\<lparr>position := Vector3 1.2 0 0\<rparr>)\<rparr>) \<and>
   wallLimit < vx (advance (speed * 0.1) (lookAlongX (Quaternion 0 0 0 1)) (Vector3 1.2 0 0)) \<and>
   dollyPosition
     ((run lookAlongX [ModelLoaded, ModelLoaded, ModelLoaded, XR ''selectstart'' 0]
        (App_constructor 0))\<lparr>dolly := Some (Object3D\<lparr>position := Vector3 1.2 0 0\<rparr>)\<rparr>) =
     Some (Vector3 1.2 0 0) \<and>
   moveDolly lookAlongX 0.1
     ((run lookAlongX [ModelLoaded, ModelLoaded, ModelLoaded, XR ''selectstart'' 0]
        (App_constructor 0))\<lparr>dolly := Some (Object3D\<lparr>position := Vector3 1.2 0 0\<rparr>)\<rparr>) =
     Inr ((run lookAlongX [ModelLoaded, ModelLoaded, ModelLoaded, XR ''selectstart'' 0]
        (App_constructor 0))\<lparr>dolly := Some (Object3D\<lparr>position := Vector3 1.2 0 0\<rparr>)\<rparr>) \<and>
   vx (Vector3 1.2 0 0) \<noteq> wallLimit"
proof -
  let ?f = lookAlongX
  define p where "p = run ?f [ModelLoaded, ModelLoaded, ModelLoaded, XR ''selectstart'' 0]
        (App_constructor 0)"
  let ?s = "p\<lparr>dolly := Some (Object3D\<lparr>position := Vector3 1.2 0 0\<rparr>)\<rparr>"
  have held: "anySelectPressed p" "proxy p = None"
    unfolding p_def using selection_held[of ?f 0] by blast+
  have "anySelectPressed ?s = anySelectPressed p" by (simp add: anySelectPressed_def)
  then have a: "anySelectPressed ?s" using held by simp
  have "proxy ?s = None" using held by simp
  then have b: "moveDolly ?f 0.1 ?s = Inr ?s" by (rule moveDolly_guard)
  have b': "dollyPosition ?s = Some (Vector3 1.2 0 0)" by (simp add: dollyPosition_def)
  have c: "withinWalls (Vector3 1.2 0 0)" "vx (Vector3 1.2 0 0) \<noteq> wallLimit"
    "wallLimit < vx (advance (speed * 0.1) (lookAlongX (Quaternion 0 0 0 1)) (Vector3 1.2 0 0))"
    by (simp_all add: withinWalls_def wallLimit_def advance_def speed_def lookAlongX_def)
  from a b b' c show ?thesis unfolding p_def [symmetric] by blast
qed

text \<open>
  C1, amended. Starting from a horizontal position within bounds, the dolly's
  horizontal position satisfies \<open>|x| \<le> 1.3\<close> and \<open>|z| \<le> 1.3\<close> after every sequence
  of events, per-frame updates included. An update that finds \<^verbatim>\<open>this.proxy\<close> undefined
  changes nothing. An update that finds it defined puts each horizontal coordinate at
  the boundary it would have crossed (at 1.3 or at -1.3) and where the movement takes
  it otherwise.
\<close>

theorem walls_hold:
  assumes "dolly s = Some d" and "withinWalls (position d)"
  shows "(\<exists>d'. dolly (run forward es s) = Some d' \<and> withinWalls (position d')) \<and>
         (proxy s = None \<longrightarrow> moveDolly forward dt s = Inr s) \<and>
         (proxy s \<noteq> None \<longrightarrow>
            (\<exists>d'. moveDolly forward dt s = Inr (s\<lparr>dolly := Some d'\<rparr>) \<and>
               (wallLimit < vx (target forward dt d s) \<longrightarrow> vx (position d') = wallLimit) \<and>
               (vx (target forward dt d s) < - wallLimit \<longrightarrow> vx (position d') = - wallLimit) \<and>
               (\<bar>vx (target forward dt d s)\<bar> \<le> wallLimit \<longrightarrow>
                  vx (position d') = vx (target forward dt d s)) \<and>
               (wallLimit < vz (target forward dt d s) \<longrightarrow> vz (position d') = wallLimit) \<and>
               (vz (target forward dt d s) < - wallLimit \<longrightarrow> vz (position d') = - wallLimit) \<and>
               (\<bar>vz (target forward dt d s)\<bar> \<le> wallLimit \<longrightarrow>
                  vz (position d') = vz (target forward dt d s))))"
proof -
  have "proxy s \<noteq> None \<longrightarrow>
      (\<exists>d'. moveDolly forward dt s = Inr (s\<lparr>dolly := Some d'\<rparr>) \<and>
         (wallLimit < vx (target forward dt d s) \<longrightarrow> vx (position d') = wallLimit) \<and>
         (vx (target forward dt d s) < - wallLimit \<longrightarrow> vx (position d') = - wallLimit) \<and>
         (\<bar>vx (target forward dt d s)\<bar> \<le> wallLimit \<longrightarrow>
            vx (position d') = vx (target forward dt d s)) \<and>
         (wallLimit < vz (target forward dt d s) \<longrightarrow> vz (position d') = wallLimit) \<and>
         (vz (target forward dt d s) < - wallLimit \<longrightarrow> vz (position d') = - wallLimit) \<and>
         (\<bar>vz (target forward dt d s)\<bar> \<le> wallLimit \<longrightarrow>
            vz (position d') = vz (target forward dt d s)))"
  proof
    assume "proxy s \<noteq> None"
    from moveDolly_past_guard[OF this assms(1), of forward dt]
    show "\<exists>d'. moveDolly forward dt s = Inr (s\<lparr>dolly := Some d'\<rparr>) \<and>
         (wallLimit < vx (target forward dt d s) \<longrightarrow> vx (position d') = wallLimit) \<and>
         (vx (target forward dt d s) < - wallLimit \<longrightarrow> vx (position d') = - wallLimit) \<and>
         (\<bar>vx (target forward dt d s)\<bar> \<le> wallLimit \<longrightarrow>
            vx (position d') = vx (target forward dt d s)) \<and>
         (wallLimit < vz (target forward dt d s) \<longrightarrow> vz (position d') = wallLimit) \<and>
         (vz (target forward dt d s) < - wallLimit \<longrightarrow> vz (position d') = - wallLimit) \<and>
         (\<bar>vz (target forward dt d s)\<bar> \<le> wallLimit \<longrightarrow>
            vz (position d') = vz (target forward dt d s))"
      using clampAxis_cases[of "vx (target forward dt d s)"]
        clampAxis_cases[of "vz (target forward dt d s)"]
      by (intro exI[of _ "d\<lparr>position := clampToWalls (target forward dt d s)\<rparr>"])
         (simp add: clampToWalls_def)
  qed
  with run_withinWalls[OF assms, of forward es] show ?thesis
    by (simp add: moveDolly_guard)
qed

theorem walls_hold_witness:
  "withinWalls (Vector3 1.2 0 0.5) \<and>
   (\<exists>d'. dolly (run lookAlongX [Frame 0.1, Frame 0.1]
      ((run lookAlongX [ModelLoaded, ModelLoaded, ModelLoaded, XR ''selectstart'' 0]
         (App_constructor 0))\<lparr>proxy := Some Object3D,
           dolly := Some (Object3D\<lparr>position := Vector3 1.2 0 0.5\<rparr>)\<rparr>)) = Some d' \<and>
      withinWalls (position d')) \<and>
   (\<exists>d'. moveDolly lookAlongX 0.1
      ((run lookAlongX [ModelLoaded, ModelLoaded, ModelLoaded, XR ''selectstart'' 0]
         (App_constructor 0))\<lparr>proxy := Some Object3D,
           dolly := Some (Object3D\<lparr>position := Vector3 1.2 0 0.5\<rparr>)\<rparr>) =
      Inr ((run lookAlongX [ModelLoaded, ModelLoaded, ModelLoaded, XR ''selectstart'' 0]
         (App_constructor 0))\<lparr>proxy := Some Object3D, dolly := Some d'\<rparr>) \<and>
      vx (position d') = wallLimit)"
proof -
  let ?f = lookAlongX
  let ?p = "run ?f [ModelLoaded, ModelLoaded, ModelLoaded, XR ''selectstart'' 0]
        (App_constructor 0)"
  let ?d = "Object3D\<lparr>position := Vector3 1.2 0 0.5\<rparr>"
  let ?s = "?p\<lparr>proxy := Some Object3D, dolly := Some ?d\<rparr>"
  note held = selection_held[of ?f 0]
  have "anySelectPressed ?s = anySelectPressed ?p" by (simp add: anySelectPressed_def)
  then have a: "anySelectPressed ?s" using held by simp
  have d: "dolly ?s = Some ?d" and p: "proxy ?s \<noteq> None" by simp_all
  have w: "withinWalls (position ?d)" by (simp add: withinWalls_def wallLimit_def)
  have t: "wallLimit < vx (target ?f 0.1 ?d ?s)"
    using a by (simp add: target_def advance_def speed_def wallLimit_def lookAlongX_def)
  from walls_hold[OF d w, of ?f "[Frame 0.1, Frame 0.1]" "0.1"] p t
  have "(\<exists>d'. dolly (run ?f [Frame 0.1, Frame 0.1] ?s) = Some d' \<and> withinWalls (position d'))"
    and "\<exists>d'. moveDolly ?f 0.1 ?s = Inr (?s\<lparr>dolly := Some d'\<rparr>) \<and>
           vx (position d') = wallLimit"
    by blast+
  with w show ?thesis by simp
qed

text \<open>
  C2, as the spec states it: an update with \<open>dt > 0\<close> and a select button held advances
  the rig by \<open>speed * dt\<close> along the forward direction, subject to the clamp. In the
  session after setup with the select button of controller 0 held, the dolly is at
  \<open>(0, 0, 10)\<close>; looking along \<open>x\<close>, a frame of 0.1 s would take it to \<open>x = 0.2\<close> (and
  the clamp would take \<open>z\<close> to 1.3). The frame leaves it at \<open>(0, 0, 10)\<close>.
\<close>

theorem selection_moves_forward_counterexample:
  "anySelectPressed
     (run lookAlongX [ModelLoaded, ModelLoaded, ModelLoaded, XR ''selectstart'' 0]
        (App_constructor 0)) \<and>
   dollyPosition
     (run lookAlongX [ModelLoaded, ModelLoaded, ModelLoaded, XR ''selectstart'' 0]
        (App_constructor 0)) = Some (Vector3 0 0 10) \<and>
   clampToWalls (advance (speed * 0.1) (lookAlongX (Quaternion 0 0 0 1)) (Vector3 0 0 10)) = Vector3 0.2 0 1.3 \<and>
   moveDolly lookAlongX 0.1
     (run lookAlongX [ModelLoaded, ModelLoaded, ModelLoaded, XR ''selectstart'' 0]
        (App_constructor 0)) =
     Inr (run lookAlongX [ModelLoaded, ModelLoaded, ModelLoaded, XR ''selectstart'' 0]
        (App_constructor 0)) \<and>
   dollyPosition
     (run lookAlongX
        [ModelLoaded, ModelLoaded, ModelLoaded, XR ''selectstart'' 0, Frame 0.1]
        (App_constructor 0)) = Some (Vector3 0 0 10)"
proof -
  let ?f = lookAlongX
  define p where "p = run ?f [ModelLoaded, ModelLoaded, ModelLoaded, XR ''selectstart'' 0]
        (App_constructor 0)"
  have held: "anySelectPressed p" "proxy p = None"
    "dolly p = Some (Object3D\<lparr>position := Vector3 0 0 10\<rparr>)"
    unfolding p_def using selection_held[of ?f 0] by blast+
  have m: "moveDolly ?f 0.1 p = Inr p" using held(2) by (rule moveDolly_guard)
  have "run ?f ([ModelLoaded, ModelLoaded, ModelLoaded, XR ''selectstart'' 0] @ [Frame 0.1])
          (App_constructor 0) = step ?f (Frame 0.1) p"
    unfolding p_def by (simp only: run_append run.simps)
  moreover have "step ?f (Frame 0.1) p = p" by (simp add: render_def m)
  ultimately have r: "run ?f
      [ModelLoaded, ModelLoaded, ModelLoaded, XR ''selectstart'' 0, Frame 0.1]
      (App_constructor 0) = p"
    by simp
  have d: "dollyPosition p = Some (Vector3 0 0 10)"
    using held(3) by (simp add: dollyPosition_def)
  have c: "clampToWalls (advance (speed * 0.1) (lookAlongX (Quaternion 0 0 0 1)) (Vector3 0 0 10)) =
      Vector3 0.2 0 1.3"
    by (simp add: clampToWalls_def clampAxis_def advance_def speed_def wallLimit_def
        lookAlongX_def)
  from held(1) m d c show ?thesis unfolding r unfolding p_def [symmetric] by blast
qed

text \<open>
  C2, amended. For an update with \<open>dt > 0\<close> while a controller has \<open>selectPressed\<close>:
  if \<^verbatim>\<open>this.proxy\<close> is defined, the dolly moves to its position advanced by
  \<open>speed * dt\<close> along the forward direction, with \<open>speed = 2\<close> (0.2 units for 0.1 s),
  clamped to the walls, and to exactly that position when it lies within the walls; if
  \<^verbatim>\<open>this.proxy\<close> is undefined, nothing moves.
\<close>

theorem selection_moves_forward:
  assumes "0 < dt" and "anySelectPressed s" and "dolly s = Some d"
  shows "speed = 2 \<and>
         (dt = 0.1 \<longrightarrow> speed * dt = 0.2) \<and>
         (proxy s \<noteq> None \<longrightarrow>
            (\<exists>s'. moveDolly forward dt s = Inr s' \<and>
               dollyPosition s' = Some (clampToWalls
                 (advance (speed * dt) (forward (quaternion (dummyCam s))) (position d))))) \<and>
         (proxy s \<noteq> None \<and>
          withinWalls (advance (speed * dt) (forward (quaternion (dummyCam s))) (position d)) \<longrightarrow>
            (\<exists>s'. moveDolly forward dt s = Inr s' \<and>
               dollyPosition s' =
                 Some (advance (speed * dt) (forward (quaternion (dummyCam s))) (position d)))) \<and>
         (proxy s = None \<longrightarrow> moveDolly forward dt s = Inr s)"
proof -
  from assms(2) have t: "target forward dt d s =
      advance (speed * dt) (forward (quaternion (dummyCam s))) (position d)"
    by (simp add: target_def)
  have "proxy s \<noteq> None \<longrightarrow>
      (\<exists>s'. moveDolly forward dt s = Inr s' \<and>
         dollyPosition s' = Some (clampToWalls
           (advance (speed * dt) (forward (quaternion (dummyCam s))) (position d))))"
    using moveDolly_past_guard[OF _ assms(3), of forward dt] t
    by (simp add: dollyPosition_def)
  then show ?thesis
    by (auto simp add: speed_def moveDolly_guard clampToWalls_within)
qed

theorem selection_moves_forward_witness:
  "(0::real) < 0.1 \<and>
   (\<exists>s'. moveDolly lookAlongNegZ 0.1
      ((run lookAlongNegZ [ModelLoaded, ModelLoaded, ModelLoaded, XR ''selectstart'' 0]
         (App_constructor 0))\<lparr>proxy := Some Object3D, dolly := Some Object3D\<rparr>) = Inr s' \<and>
      dollyPosition s' = Some (Vector3 0 0 (- 0.2)))"
proof -
  let ?f = lookAlongNegZ
  define p where "p = run ?f [ModelLoaded, ModelLoaded, ModelLoaded, XR ''selectstart'' 0]
        (App_constructor 0)"
  let ?s = "p\<lparr>proxy := Some Object3D, dolly := Some Object3D\<rparr>"
  have held: "anySelectPressed p" unfolding p_def using selection_held[of ?f 0] by blast
  have "anySelectPressed ?s = anySelectPressed p" by (simp add: anySelectPressed_def)
  then have a: "anySelectPressed ?s" using held by simp
  have d: "dolly ?s = Some Object3D" and p: "proxy ?s \<noteq> None" by simp_all
  have adv: "advance (speed * 0.1) (?f (quaternion (dummyCam ?s))) (position Object3D) =
      Vector3 0 0 (- 0.2)"
    by (simp add: advance_def speed_def Object3D_def lookAlongNegZ_def)
  have w: "withinWalls (Vector3 0 0 (- 0.2))" by (simp add: withinWalls_def wallLimit_def)
  have dt: "(0::real) < 0.1" by simp
  have w': "withinWalls
      (advance (speed * 0.1) (?f (quaternion (dummyCam ?s))) (position Object3D))"
    using w by (simp only: adv)
  from selection_moves_forward[OF dt a d, of ?f] p w'
  have "\<exists>s'. moveDolly ?f 0.1 ?s = Inr s' \<and>
      dollyPosition s' =
        Some (advance (speed * 0.1) (?f (quaternion (dummyCam ?s))) (position Object3D))"
    by blast
  then have "\<exists>s'. moveDolly ?f 0.1 ?s = Inr s' \<and> dollyPosition s' = Some (Vector3 0 0 (- 0.2))"
    by (simp only: adv)
  with dt show ?thesis unfolding p_def [symmetric] by blast
qed

end
